theory Spec2Isabelle
  imports Complex_Main "HOL-Library.AList"
begin

section \<open>Values, files and exceptions\<close>

text \<open>
  The program keeps two JSON files, \<^verbatim>\<open>reading_progress.json\<close> and
  \<^verbatim>\<open>app_settings.json\<close>. What \<^verbatim>\<open>json.load\<close> hands back is a JSON value; an object
  becomes a Python dict, kept here as an association list in insertion order (looked up
  with \<open>map_of\<close>, stored with \<open>AList.update\<close>, which keeps the position of a key that is
  already there and appends a new one, as a dict does). Numbers with a fraction or an
  exponent are left out of the value type.
\<close>

datatype json =
    JNull
  | JBool bool
  | JInt int
  | JStr string
  | JArr "json list"
  | JObj "(string \<times> json) list"

text \<open>
  The state of one file on disk, as the loading code can tell it apart:
  \<^item> \<open>Missing\<close>: \<^verbatim>\<open>os.path.exists\<close> is false;
  \<^item> \<open>Unreadable\<close>: the path exists and \<^verbatim>\<open>open\<close> raises \<^verbatim>\<open>IOError\<close>;
  \<^item> \<open>Garbled\<close>: the content is not a JSON text (\<^verbatim>\<open>json.load\<close> raises
    \<^verbatim>\<open>JSONDecodeError\<close>); an empty file is of this kind;
  \<^item> \<open>Undecodable\<close>: the bytes are not UTF-8, so that reading them raises
    \<^verbatim>\<open>UnicodeDecodeError\<close>, a \<^verbatim>\<open>ValueError\<close> that is neither of the two exceptions the
    loading code catches;
  \<^item> \<open>Document v\<close>: the content is the JSON text of \<open>v\<close>.
\<close>

datatype json_file = Missing | Unreadable | Garbled | Undecodable | Document json

datatype error =
    AttributeError
  | TypeError
  | IndexError
  | ValueError
  | ZeroDivisionError
  | IOError
  | UnicodeDecodeError

section \<open>Progress store\<close>

text \<open>
  \<^verbatim>\<open>load_all_progress\<close>: the parsed content of the file, and the empty dict when the file
  is missing or one of the two caught exceptions is raised. A JSON text that is not an
  object is returned as it is, and any other exception goes on to the caller.
\<close>

fun load_all_progress :: "json_file \<Rightarrow> error + json" where
  "load_all_progress Missing = Inr (JObj [])"
| "load_all_progress Unreadable = Inr (JObj [])"
| "load_all_progress Garbled = Inr (JObj [])"
| "load_all_progress Undecodable = Inl UnicodeDecodeError"
| "load_all_progress (Document v) = Inr v"

text \<open>
  \<^verbatim>\<open>save_all_progress\<close> opens the file with mode \<^verbatim>\<open>"w"\<close> and dumps the table into it;
  when the \<^verbatim>\<open>with\<close> block has closed the file, it holds the text of the table. A path that
  cannot be opened raises \<^verbatim>\<open>IOError\<close>. What the file holds before the block is done is
  described further down, with the text that is written.
\<close>

fun save_all_progress :: "json \<Rightarrow> json_file \<Rightarrow> error + json_file" where
  "save_all_progress data Unreadable = Inl IOError"
| "save_all_progress data f = Inr (Document data)"

text \<open>
  \<^verbatim>\<open>data.get(file_path, 0)\<close>: only a dict has \<^verbatim>\<open>get\<close>. The path is \<^verbatim>\<open>None\<close> until a
  document has been opened; the keys of a parsed object are strings, so \<^verbatim>\<open>None\<close> is never
  found.
\<close>

fun py_get :: "json \<Rightarrow> string option \<Rightarrow> json \<Rightarrow> error + json" where
  "py_get (JObj kvs) None dflt = Inr dflt"
| "py_get (JObj kvs) (Some k) dflt =
     Inr (case map_of kvs k of None \<Rightarrow> dflt | Some v \<Rightarrow> v)"
| "py_get v k dflt = Inl AttributeError"

definition load_progress :: "string option \<Rightarrow> json_file \<Rightarrow> error + json" where
  "load_progress file_path f =
     (case load_all_progress f of
        Inl e \<Rightarrow> Inl e
      | Inr data \<Rightarrow> py_get data file_path (JInt 0))"

text \<open>
  \<^verbatim>\<open>data[file_path] = index\<close>: item assignment needs a dict (a list wants an integer
  index, the other values have no item assignment: \<^verbatim>\<open>TypeError\<close> either way).
  \<^verbatim>\<open>json.dump\<close> writes the key \<^verbatim>\<open>None\<close> as \<^verbatim>\<open>"null"\<close>.
\<close>

fun key_text :: "string option \<Rightarrow> string" where
  "key_text None = ''null''"
| "key_text (Some k) = k"

fun py_setitem :: "json \<Rightarrow> string option \<Rightarrow> json \<Rightarrow> error + json" where
  "py_setitem (JObj kvs) k v = Inr (JObj (AList.update (key_text k) v kvs))"
| "py_setitem d k v = Inl TypeError"

definition save_progress :: "string option \<Rightarrow> int \<Rightarrow> json_file \<Rightarrow> error + json_file" where
  "save_progress file_path index f =
     (case load_all_progress f of
        Inl e \<Rightarrow> Inl e
      | Inr data \<Rightarrow>
          (case py_setitem data file_path (JInt index) of
             Inl e \<Rightarrow> Inl e
           | Inr data' \<Rightarrow> save_all_progress data' f))"

section \<open>Tokens\<close>

text \<open>
  \<^verbatim>\<open>str.split()\<close> with no argument cuts the text at runs of whitespace and returns no
  empty string. Characters are the 8-bit characters of \<open>string\<close>; among them Python counts
  as whitespace the codes 9 to 13, 28 to 32, 133 and 160.
\<close>

definition isspace :: "char \<Rightarrow> bool" where
  "isspace c = (of_char c \<in> {9, 10, 11, 12, 13, 28, 29, 30, 31, 32, 133, 160 :: nat})"

fun split_from :: "string \<Rightarrow> string \<Rightarrow> string list" where
  "split_from [] cur = (if cur = [] then [] else [rev cur])"
| "split_from (c # cs) cur =
     (if isspace c then (if cur = [] then split_from cs [] else rev cur # split_from cs [])
      else split_from cs (c # cur))"

definition split :: "string \<Rightarrow> string list" where
  "split s = split_from s []"

text \<open>
  \<^verbatim>\<open>words[i]\<close>: a negative index counts from the end, and an index outside
  \<open>-len .. len - 1\<close> raises \<^verbatim>\<open>IndexError\<close>.
\<close>

definition py_getitem :: "'a list \<Rightarrow> int \<Rightarrow> error + 'a" where
  "py_getitem xs i =
     (if 0 \<le> i \<and> i < int (length xs) then Inr (xs ! nat i)
      else if - int (length xs) \<le> i \<and> i < 0 then Inr (xs ! nat (int (length xs) + i))
      else Inl IndexError)"

section \<open>The progress percentage\<close>

text \<open>
  \<^verbatim>\<open>int((i + 1) / total_words * 100)\<close> is computed in double precision: the true division
  of two integers gives the double nearest to the quotient, the product with 100 is rounded
  to the nearest double again, and \<^verbatim>\<open>int\<close> cuts the fraction off. A double is kept as a
  pair \<open>(m, e)\<close> standing for \<open>m * 2 ^ e\<close>, with at most 53 bits in \<open>m\<close> and \<open>e\<close> no less than
  \<open>-1074\<close>; rounding is to nearest, ties to the even mantissa. The quotients of the loop lie
  between -1 and 1, so the overflow of a double is not part of the model.
\<close>

function bit_length :: "int \<Rightarrow> int" where
  "bit_length n = (if n \<le> 0 then 0 else 1 + bit_length (n div 2))"
  by pat_completeness auto
termination
  by (relation "measure nat") auto

declare bit_length.simps [simp del]

definition round_half_even :: "int \<Rightarrow> int \<Rightarrow> int" where
  "round_half_even n d =
     (let q = n div d; r = n mod d in
      if 2 * r < d then q
      else if d < 2 * r then q + 1
      else if even q then q else q + 1)"

text \<open>\<open>scaled n x\<close> is \<open>n * 2 ^ x\<close> for \<open>x \<ge> 0\<close> and \<open>n\<close> otherwise.\<close>

definition scaled :: "int \<Rightarrow> int \<Rightarrow> int" where
  "scaled n x = n * 2 ^ nat x"

text \<open>
  The double nearest to the positive rational \<open>n / d\<close>: \<open>E\<close> is the exponent of its leading
  bit (\<open>2 ^ E \<le> n / d < 2 ^ (E + 1)\<close>), the last place of the mantissa is worth
  \<open>2 ^ (E - 52)\<close>, or \<open>2 ^ -1074\<close> for a subnormal.
\<close>

definition nearest_double :: "int \<Rightarrow> int \<Rightarrow> int \<times> int" where
  "nearest_double n d =
     (if n = 0 then (0, 0)
      else
        let L = bit_length n - bit_length d;
            E = (if scaled d L \<le> scaled n (- L) then L else L - 1);
            q = max (E - 52) (- 1074)
        in (round_half_even (scaled n (- q)) (scaled d q), q))"

definition py_truediv :: "int \<Rightarrow> int \<Rightarrow> error + int \<times> int" where
  "py_truediv a b =
     (if b = 0 then Inl ZeroDivisionError
      else
        let (m, e) = nearest_double \<bar>a\<bar> \<bar>b\<bar>
        in Inr (sgn a * sgn b * m, e))"

definition times_100 :: "int \<times> int \<Rightarrow> int \<times> int" where
  "times_100 x =
     (let (m, e) = x;
          (m', e') = nearest_double (scaled \<bar>100 * m\<bar> e) (scaled 1 (- e))
      in (sgn m * m', e'))"

text \<open>\<^verbatim>\<open>int(x)\<close> rounds toward zero.\<close>

definition py_int :: "int \<times> int \<Rightarrow> int" where
  "py_int x = (let (m, e) = x in sgn m * (scaled \<bar>m\<bar> e div scaled 1 (- e)))"

definition progress_percent :: "int \<Rightarrow> int \<Rightarrow> error + int" where
  "progress_percent i total_words =
     (case py_truediv (i + 1) total_words of
        Inl e \<Rightarrow> Inl e
      | Inr x \<Rightarrow> Inr (py_int (times_100 x)))"

section \<open>The playback thread\<close>

record word_display_thread =
  file_path :: "string option"
  thread_text :: string
  thread_words_per_minute :: json
  running :: bool
  current_index :: int

definition new_thread :: "string option \<Rightarrow> string \<Rightarrow> json \<Rightarrow> word_display_thread" where
  "new_thread path txt wpm =
     \<lparr> file_path = path, thread_text = txt, thread_words_per_minute = wpm,
       running = True, current_index = 0 \<rparr>"

text \<open>
  What a session does, in order: the two signals, the pacing sleep with its delay (a
  double), and each write of an index to the progress file.
\<close>

datatype event =
    Word_signal string
  | Progress_signal int
  | Sleep "int \<times> int"
  | Saved int

text \<open>
  The loop is not alone: \<^verbatim>\<open>stop\<close> clears the flag from the interface thread, and
  the \<^verbatim>\<open>try\<close> block expects a \<^verbatim>\<open>KeyboardInterrupt\<close>. Both come from outside, so a run
  takes them as given: \<open>stop_seen i\<close> says that \<^verbatim>\<open>stop\<close> has been called by the time the
  iteration for index \<open>i\<close> tests the flag, and the interrupt, when there is one, is raised
  at one of these places inside the \<^verbatim>\<open>try\<close> block:
  \<^item> \<open>At_top i\<close>: at the head of the iteration for \<open>i\<close>, before the cursor is set;
  \<^item> \<open>In_sleep i\<close>: during the sleep of that iteration;
  \<^item> \<open>At_exit\<close>: when the range is exhausted.
\<close>

datatype point = At_top int | In_sleep int | At_exit

record session =
  thread_obj :: word_display_thread
  events :: "event list"
  store :: json_file

datatype outcome = Finished | Stopped | Interrupted | Raised error

definition emit :: "event \<Rightarrow> session \<Rightarrow> session" where
  "emit ev s = s\<lparr>events := events s @ [ev]\<rparr>"

text \<open>The handler: \<^verbatim>\<open>save_progress(self.file_path, self.current_index)\<close>.\<close>

definition on_keyboard_interrupt :: "session \<Rightarrow> outcome \<times> session" where
  "on_keyboard_interrupt s =
     (let t = thread_obj s in
      case save_progress (file_path t) (current_index t) (store s) of
        Inl e \<Rightarrow> (Raised e, s)
      | Inr f \<Rightarrow> (Interrupted, (emit (Saved (current_index t)) s)\<lparr>store := f\<rparr>))"

text \<open>
  Where Python wants a number (\<^verbatim>\<open>range(start_index, total_words)\<close>,
  \<^verbatim>\<open>60 / self.words_per_minute\<close>), \<^verbatim>\<open>True\<close> and \<^verbatim>\<open>False\<close> count as 1 and 0, and
  every other value that is not an integer raises \<^verbatim>\<open>TypeError\<close>.
\<close>

fun py_index :: "json \<Rightarrow> error + int" where
  "py_index (JInt k) = Inr k"
| "py_index (JBool b) = Inr (if b then 1 else 0)"
| "py_index v = Inl TypeError"

text \<open>\<^verbatim>\<open>delay = 60 / self.words_per_minute\<close>, a double.\<close>

definition pacing_delay :: "json \<Rightarrow> error + int \<times> int" where
  "pacing_delay wpm = (case py_index wpm of Inl e \<Rightarrow> Inl e | Inr n \<Rightarrow> py_truediv 60 n)"

text \<open>
  The body of \<^verbatim>\<open>for i in range(start_index, total_words)\<close>, one equation per state of the
  range. \<^verbatim>\<open>time.sleep\<close> refuses a negative delay with \<^verbatim>\<open>ValueError\<close>.
\<close>

fun step_loop ::
  "(int \<Rightarrow> bool) \<Rightarrow> point option \<Rightarrow> string list \<Rightarrow> int \<times> int \<Rightarrow> int list \<Rightarrow> session
     \<Rightarrow> outcome \<times> session"
where
  "step_loop stop_seen intr words delay [] s =
     (if intr = Some At_exit then on_keyboard_interrupt s else (Finished, s))"
| "step_loop stop_seen intr words delay (i # rest) s =
     (if intr = Some (At_top i) then on_keyboard_interrupt s
      else if \<not> running (thread_obj s) \<or> stop_seen i
        then (Stopped, s\<lparr>thread_obj := (thread_obj s)\<lparr>running := False\<rparr>\<rparr>)
      else
        let s1 = s\<lparr>thread_obj := (thread_obj s)\<lparr>current_index := i\<rparr>\<rparr> in
        case py_getitem words i of
          Inl e \<Rightarrow> (Raised e, s1)
        | Inr w \<Rightarrow>
            let s2 = emit (Word_signal w) s1 in
            case progress_percent i (int (length words)) of
              Inl e \<Rightarrow> (Raised e, s2)
            | Inr progress \<Rightarrow>
                let s3 = emit (Progress_signal progress) s2 in
                if fst delay < 0 then (Raised ValueError, s3)
                else if intr = Some (In_sleep i) then on_keyboard_interrupt s3
                else
                  let s4 = emit (Sleep delay) s3 in
                  case save_progress (file_path (thread_obj s4)) (i + 1) (store s4) of
                    Inl e \<Rightarrow> (Raised e, s4)
                  | Inr f \<Rightarrow>
                      step_loop stop_seen intr words delay rest
                        ((emit (Saved (i + 1)) s4)\<lparr>store := f\<rparr>))"

text \<open>
  \<^verbatim>\<open>WordDisplayThread.run\<close>. The statements before the \<^verbatim>\<open>try\<close> can raise too: the load
  of the stored index, and the division when the rate is 0 or not a number.
\<close>

definition run ::
  "(int \<Rightarrow> bool) \<Rightarrow> point option \<Rightarrow> word_display_thread \<Rightarrow> json_file \<Rightarrow> outcome \<times> session"
where
  "run stop_seen intr t f =
     (let words = split (thread_text t);
          s = \<lparr> thread_obj = t, events = [], store = f \<rparr> in
      case load_progress (file_path t) f of
        Inl e \<Rightarrow> (Raised e, s)
      | Inr v \<Rightarrow>
          case pacing_delay (thread_words_per_minute t) of
            Inl e \<Rightarrow> (Raised e, s)
          | Inr delay \<Rightarrow>
              let total_words = int (length words) in
              case py_index v of
                Inl e \<Rightarrow> (Raised e, s)
              | Inr start_index \<Rightarrow>
                  step_loop stop_seen intr words delay [start_index..(total_words - 1)] s)"

text \<open>
  Two courses of the stop requests: \<^verbatim>\<open>stop\<close> is never called, and \<^verbatim>\<open>stop\<close> is called
  when \<open>n\<close> iterations are complete, so that the flag is seen cleared from the iteration
  for index \<open>n\<close> on.
\<close>

definition no_stop :: "int \<Rightarrow> bool" where
  "no_stop i = False"

definition stop_from :: "int \<Rightarrow> int \<Rightarrow> bool" where
  "stop_from n i = (n \<le> i)"

text \<open>The word notifications of a trace, in order, and the indices written.\<close>

fun signalled_words :: "event list \<Rightarrow> string list" where
  "signalled_words [] = []"
| "signalled_words (Word_signal w # es) = w # signalled_words es"
| "signalled_words (e # es) = signalled_words es"

fun signalled_progress :: "event list \<Rightarrow> int list" where
  "signalled_progress [] = []"
| "signalled_progress (Progress_signal p # es) = p # signalled_progress es"
| "signalled_progress (e # es) = signalled_progress es"

fun saved_indices :: "event list \<Rightarrow> int list" where
  "saved_indices [] = []"
| "saved_indices (Saved k # es) = k # saved_indices es"
| "saved_indices (e # es) = saved_indices es"

section \<open>Context window\<close>

text \<open>
  \<^verbatim>\<open>ContextWindow.update_context\<close> builds the list \<^verbatim>\<open>context\<close> and hands its words,
  joined by blanks, to the text browser. Every \<open>i\<close> of the range lies between 0 and
  \<open>len(words) - 1\<close>, so \<^verbatim>\<open>words[i]\<close> is the plain list access.
\<close>

definition highlight_current :: "string \<Rightarrow> string" where
  \<open>highlight_current w = ''<span style="color: red; font-weight: bold;">'' @ w @ ''</span>''\<close>

definition context_list :: "string \<Rightarrow> int \<Rightarrow> string list" where
  "context_list txt current =
     (let words = split txt;
          start = max 0 (current - 60);
          end = min (int (length words)) (current + 61)
      in map (\<lambda>i. if i = current then highlight_current (words ! nat i) else words ! nat i)
           [start..(end - 1)])"

fun join :: "string \<Rightarrow> string list \<Rightarrow> string" where
  "join sep [] = []"
| "join sep [x] = x"
| "join sep (x # y # ys) = x @ sep @ join sep (y # ys)"

definition update_context :: "string \<Rightarrow> int \<Rightarrow> string" where
  "update_context txt current = join '' '' (context_list txt current)"

section \<open>Main window\<close>

text \<open>
  The fields of \<^verbatim>\<open>MainWindow\<close> that the operations below read or write. The two settings
  hold whatever the settings file gave for them.
\<close>

record main_window =
  words_per_minute :: json
  font_size :: json
  window_text :: string
  thread :: "word_display_thread option"
  current_file_path :: "string option"
  word_label :: string
  progress_bar :: int

text \<open>\<^verbatim>\<open>load_app_settings\<close> reads the settings file the way the progress file is read.\<close>

fun load_app_settings :: "json_file \<Rightarrow> error + json" where
  "load_app_settings Missing = Inr (JObj [])"
| "load_app_settings Unreadable = Inr (JObj [])"
| "load_app_settings Garbled = Inr (JObj [])"
| "load_app_settings Undecodable = Inl UnicodeDecodeError"
| "load_app_settings (Document v) = Inr v"

definition load_settings_from_file :: "main_window \<Rightarrow> json_file \<Rightarrow> error + main_window" where
  "load_settings_from_file w settings_file =
     (case load_app_settings settings_file of
        Inl e \<Rightarrow> Inl e
      | Inr settings \<Rightarrow>
          (case py_get settings (Some ''words_per_minute'') (JInt 300) of
             Inl e \<Rightarrow> Inl e
           | Inr wpm \<Rightarrow>
               (case py_get settings (Some ''font_size'') (JInt 16) of
                  Inl e \<Rightarrow> Inl e
                | Inr fs \<Rightarrow> Inr (w\<lparr>words_per_minute := wpm, font_size := fs\<rparr>))))"

text \<open>\<^verbatim>\<open>stop_display\<close>: \<^verbatim>\<open>stop\<close> clears the flag of the thread the window holds.\<close>

definition stop_display :: "main_window \<Rightarrow> main_window" where
  "stop_display w =
     (case thread w of
        None \<Rightarrow> w
      | Some t \<Rightarrow> w\<lparr>thread := Some (t\<lparr>running := False\<rparr>)\<rparr>)"

text \<open>
  \<^verbatim>\<open>start_display\<close> returns the window and the thread it has started, if any. The guard
  is \<^verbatim>\<open>if not self.text\<close>: it looks at the text, not at its tokens.
\<close>

definition start_display :: "main_window \<Rightarrow> main_window \<times> word_display_thread option" where
  "start_display w =
     (if window_text w = [] then (w\<lparr>word_label := ''Please load an EPUB file first.''\<rparr>, None)
      else
        let w1 = stop_display w;
            t = new_thread (current_file_path w1) (window_text w1) (words_per_minute w1)
        in (w1\<lparr>thread := Some t\<rparr>, Some t))"

text \<open>
  A whole start: the window after \<^verbatim>\<open>start_display\<close>, and what the started thread then
  does to the progress file and which events it produces, under the given stop requests
  and interrupt.
\<close>

definition start_and_play ::
  "(int \<Rightarrow> bool) \<Rightarrow> point option \<Rightarrow> main_window \<Rightarrow> json_file
     \<Rightarrow> main_window \<times> json_file \<times> event list"
where
  "start_and_play stop_seen intr w f =
     (case start_display w of
        (w', None) \<Rightarrow> (w', f, [])
      | (w', Some t) \<Rightarrow>
          let (out, s) = run stop_seen intr t f
          in (w'\<lparr>thread := Some (thread_obj s)\<rparr>, store s, events s))"

section \<open>The specification's wording\<close>

text \<open>
  The percentage as the specification words it, \<^verbatim>\<open>round((i+1)/len(tokens)*100)\<close>: the
  exact quotient, rounded to the nearest integer.
\<close>

definition rounded_percent :: "int \<Rightarrow> int \<Rightarrow> int" where
  "rounded_percent i n = round (rat_of_int (i + 1) / rat_of_int n * 100)"

section \<open>The text of a table and the stages of a write\<close>

text \<open>
  \<^verbatim>\<open>json.dump(data, f, ensure_ascii=False, indent=2)\<close> writes the text below: integers in
  decimal, strings in double quotes with the quote, the backslash and the control
  characters escaped and every other character as it is, the entries of a list or a dict
  one per line, indented by two blanks per level.
\<close>

function digits :: "int \<Rightarrow> string" where
  "digits n = (if n < 10 then [''0123456789'' ! nat n] else digits (n div 10) @ [''0123456789'' ! nat (n mod 10)])"
  by pat_completeness auto
termination
  by (relation "measure nat") auto

declare digits.simps [simp del]

definition py_str :: "int \<Rightarrow> string" where
  "py_str k = (if k < 0 then CHR ''-'' # digits (- k) else digits k)"

definition hex4 :: "nat \<Rightarrow> string" where
  "hex4 n = [CHR ''0'', CHR ''0'', ''0123456789abcdef'' ! (n div 16), ''0123456789abcdef'' ! (n mod 16)]"

definition escape :: "char \<Rightarrow> string" where
  "escape c =
     (let n = (of_char c :: nat) in
      if n = 0x22 then [CHR 0x5C, CHR 0x22]
      else if n = 0x5C then [CHR 0x5C, CHR 0x5C]
      else if n = 0x08 then [CHR 0x5C, CHR ''b'']
      else if n = 0x0C then [CHR 0x5C, CHR ''f'']
      else if n = 0x0A then [CHR 0x5C, CHR ''n'']
      else if n = 0x0D then [CHR 0x5C, CHR ''r'']
      else if n = 0x09 then [CHR 0x5C, CHR ''t'']
      else if n < 0x20 then [CHR 0x5C, CHR ''u''] @ hex4 n
      else [c])"

definition encode_basestring :: "string \<Rightarrow> string" where
  "encode_basestring s = [CHR 0x22] @ concat (map escape s) @ [CHR 0x22]"

definition newline_indent :: "nat \<Rightarrow> string" where
  "newline_indent level = CHR 0x0A # replicate (2 * level) (CHR '' '')"

fun dumps_at :: "nat \<Rightarrow> json \<Rightarrow> string" where
  "dumps_at level JNull = ''null''"
| "dumps_at level (JBool b) = (if b then ''true'' else ''false'')"
| "dumps_at level (JInt k) = py_str k"
| "dumps_at level (JStr s) = encode_basestring s"
| "dumps_at level (JArr xs) =
     (if xs = [] then ''[]''
      else ''['' @ newline_indent (level + 1)
        @ join ('','' @ newline_indent (level + 1)) (map (dumps_at (level + 1)) xs)
        @ newline_indent level @ '']'')"
| "dumps_at level (JObj kvs) =
     (if kvs = [] then ''{}''
      else ''{'' @ newline_indent (level + 1)
        @ join ('','' @ newline_indent (level + 1))
            (map (\<lambda>kv. encode_basestring (fst kv) @ '': '' @ dumps_at (level + 1) (snd kv)) kvs)
        @ newline_indent level @ ''}'')"

text \<open>
  The file is opened with \<^verbatim>\<open>encoding="utf-8"\<close>: a character below 128 is one byte, the
  other 8-bit characters are two bytes. Line ends are written as they are.
\<close>

definition utf8 :: "string \<Rightarrow> nat list" where
  "utf8 s = concat (map (\<lambda>c. let n = of_char c in
      if n < 128 then [n] else [192 + n div 64, 128 + n mod 64]) s)"

definition written_bytes :: "json \<Rightarrow> nat list" where
  "written_bytes data = utf8 (dumps_at 0 data)"

text \<open>
  Whether bytes are the UTF-8 form of a text, for the one-byte and two-byte forms that
  \<open>utf8\<close> produces: a text cut after the first byte of a two-byte character is not.
\<close>

fun decodable :: "nat list \<Rightarrow> bool" where
  "decodable [] = True"
| "decodable [b] = (b < 128)"
| "decodable (b # c # bs) =
     (if b < 128 then decodable (c # bs)
      else 194 \<le> b \<and> b < 224 \<and> 128 \<le> c \<and> c < 192 \<and> decodable bs)"

text \<open>
  \<^verbatim>\<open>open(PROGRESS_JSON, "w")\<close> truncates the file, and the bytes of the new text then reach
  it in order. \<open>file_after data j\<close> is the file that holds the first \<open>j\<close> bytes of the text of
  the table \<open>data\<close>: the whole text is the document; a proper prefix is no JSON text (the
  brace that opens the table is closed by the last character of the text), and it cannot
  even be read when it ends inside a character. \<open>table_write_stages\<close> lists the files a
  write goes through, one for every point at which it can be cut, from the empty file
  right after the \<^verbatim>\<open>open\<close> to the whole text.
\<close>

definition file_after :: "json \<Rightarrow> nat \<Rightarrow> json_file" where
  "file_after data j =
     (let bs = written_bytes data in
      if length bs \<le> j then Document data
      else if decodable (take j bs) then Garbled
      else Undecodable)"



text \<open>The state a run starts from.\<close>

definition fresh_session :: "word_display_thread \<Rightarrow> json_file \<Rightarrow> session" where
  "fresh_session t f = \<lparr> thread_obj = t, events = [], store = f \<rparr>"

section \<open>Writable tables\<close>

text \<open>
  A file is a writable table when a \<^verbatim>\<open>save_progress\<close> goes through: it can be opened, and
  what \<^verbatim>\<open>load_all_progress\<close> returns for it is a dict. \<open>after_save\<close> is the file such a
  save leaves behind.
\<close>

fun is_table :: "json \<Rightarrow> bool" where
  "is_table (JObj kvs) = True"
| "is_table v = False"

fun entries :: "json \<Rightarrow> (string \<times> json) list" where
  "entries (JObj kvs) = kvs"
| "entries v = []"

definition writable_table :: "json_file \<Rightarrow> bool" where
  "writable_table f =
     (f \<noteq> Unreadable \<and> (case load_all_progress f of Inl e \<Rightarrow> False | Inr v \<Rightarrow> is_table v))"

definition stored_entries :: "json_file \<Rightarrow> (string \<times> json) list" where
  "stored_entries f = (case load_all_progress f of Inl e \<Rightarrow> [] | Inr v \<Rightarrow> entries v)"

definition after_save :: "string option \<Rightarrow> int \<Rightarrow> json_file \<Rightarrow> json_file" where
  "after_save path k f =
     Document (JObj (AList.update (key_text path) (JInt k) (stored_entries f)))"

section \<open>Completed iterations\<close>

text \<open>
  The effect of iterations of the loop that run through to their checkpoint: the four
  events of each, the cursor on the last index, and the file after the writes.
  \<open>percent_of\<close> is the percentage where \<open>progress_percent\<close> has one.
\<close>

definition percent_of :: "int \<Rightarrow> int \<Rightarrow> int" where
  "percent_of i total_words =
     (case progress_percent i total_words of Inl e \<Rightarrow> 0 | Inr p \<Rightarrow> p)"

definition iteration_events :: "string list \<Rightarrow> int \<times> int \<Rightarrow> int \<Rightarrow> event list" where
  "iteration_events words delay i =
     [Word_signal (words ! nat i), Progress_signal (percent_of i (int (length words))),
      Sleep delay, Saved (i + 1)]"

definition after_iterations ::
  "string list \<Rightarrow> int \<times> int \<Rightarrow> int list \<Rightarrow> session \<Rightarrow> session"
where
  "after_iterations words delay is s =
     \<lparr> thread_obj = (thread_obj s)\<lparr>current_index := last (current_index (thread_obj s) # is)\<rparr>,
       events = events s @ concat (map (iteration_events words delay) is),
       store = fold (\<lambda>i. after_save (file_path (thread_obj s)) (i + 1)) is (store s) \<rparr>"

section \<open>Facts about the progress store\<close>

lemma is_table_entries: "is_table v \<Longrightarrow> v = JObj (entries v)"
  by (cases v) simp_all

lemma writable_loads:
  assumes "writable_table f"
  shows "load_all_progress f = Inr (JObj (stored_entries f))"
proof (cases "load_all_progress f")
  case (Inl e)
  with assms show ?thesis by (simp add: writable_table_def)
next
  case (Inr v)
  with assms have "is_table v" by (simp add: writable_table_def)
  then have "v = JObj (entries v)" by (rule is_table_entries)
  with Inr show ?thesis by (simp add: stored_entries_def)
qed

lemma save_progress_writable:
  assumes "writable_table f"
  shows "save_progress path k f = Inr (after_save path k f)"
proof -
  from assms have u: "f \<noteq> Unreadable"
    by (simp add: writable_table_def)
  have "save_all_progress data f = Inr (Document data)" for data
    using u by (cases f) simp_all
  then show ?thesis
    by (simp add: save_progress_def after_save_def writable_loads [OF assms])
qed

lemma writable_after_save: "writable_table (after_save path k f)"
  by (simp add: writable_table_def after_save_def)

lemma load_after_save: "load_progress (Some d) (after_save (Some d) k f) = Inr (JInt k)"
  by (simp add: load_progress_def after_save_def update_conv')

lemma load_writable:
  assumes "writable_table f"
  shows "load_progress (Some d) f =
    Inr (case map_of (stored_entries f) d of None \<Rightarrow> JInt 0 | Some v \<Rightarrow> v)"
  by (simp add: load_progress_def writable_loads [OF assms])

lemma load_after_save_other:
  assumes "writable_table f" and "d' \<noteq> d"
  shows "load_progress (Some d') (after_save (Some d) k f) = load_progress (Some d') f"
proof -
  have "load_progress (Some d') (after_save (Some d) k f) =
      Inr (case map_of (stored_entries f) d' of None \<Rightarrow> JInt 0 | Some v \<Rightarrow> v)"
    using assms(2) by (simp add: load_progress_def after_save_def update_conv')
  then show ?thesis
    by (simp add: load_writable [OF assms(1)])
qed

section \<open>Facts about the loop\<close>

lemma progress_percent_Inr:
  "n \<noteq> 0 \<Longrightarrow> progress_percent i n = Inr (percent_of i n)"
  by (simp add: percent_of_def progress_percent_def py_truediv_def split: prod.splits)

lemma py_getitem_in_range:
  "0 \<le> i \<Longrightarrow> i < int (length xs) \<Longrightarrow> py_getitem xs i = Inr (xs ! nat i)"
  by (simp add: py_getitem_def)

lemma after_iterations_Nil: "after_iterations words delay [] s = s"
  by (simp add: after_iterations_def)

lemma step_loop_iteration:
  assumes "running (thread_obj s)" and "\<not> stop_seen i"
    and "0 \<le> fst delay"
    and "0 \<le> i" and "i < int (length words)"
    and "writable_table (store s)"
    and "intr \<noteq> Some (At_top i)" and "intr \<noteq> Some (In_sleep i)"
  shows "step_loop stop_seen intr words delay (i # rest) s =
    step_loop stop_seen intr words delay rest (after_iterations words delay [i] s)"
proof -
  have n: "int (length words) \<noteq> 0" using assms(4,5) by linarith
  have eq: "(emit (Saved (i + 1)) (emit (Sleep delay) (emit (Progress_signal (percent_of i (int (length words))))
      (emit (Word_signal (words ! nat i)) (s\<lparr>thread_obj := (thread_obj s)\<lparr>current_index := i\<rparr>\<rparr>)))))
      \<lparr>store := after_save (file_path (thread_obj s)) (i + 1) (store s)\<rparr>
    = after_iterations words delay [i] s"
    by (simp add: emit_def after_iterations_def iteration_events_def)
  show ?thesis
    using assms
    by (simp add: py_getitem_in_range progress_percent_Inr [OF n] save_progress_writable
        emit_def Let_def eq [unfolded emit_def, simplified])
qed


lemma after_iterations_Cons:
  "after_iterations words delay (i # rest) s = after_iterations words delay rest (after_iterations words delay [i] s)"
  by (simp add: after_iterations_def)

lemma after_iterations_append:
  "after_iterations words delay (xs @ ys) s = after_iterations words delay ys (after_iterations words delay xs s)"
  by (simp add: after_iterations_def)

lemma after_iterations_thread [simp]:
  "running (thread_obj (after_iterations words delay is s)) = running (thread_obj s)"
  "file_path (thread_obj (after_iterations words delay is s)) = file_path (thread_obj s)"
  by (simp_all add: after_iterations_def)

lemma fold_after_save_writable:
  "writable_table f \<Longrightarrow> writable_table (fold (\<lambda>i. after_save path (i + 1)) is f)"
  by (induction "is" arbitrary: f) (simp_all add: writable_after_save)

lemma after_iterations_writable:
  "writable_table (store s) \<Longrightarrow> writable_table (store (after_iterations words delay is s))"
  by (simp add: after_iterations_def fold_after_save_writable)

lemma step_loop_plays:
  assumes "running (thread_obj s)"
    and "0 \<le> fst delay"
    and "writable_table (store s)"
    and "\<forall>i \<in> set is. \<not> stop_seen i \<and> 0 \<le> i \<and> i < int (length words)
           \<and> intr \<noteq> Some (At_top i) \<and> intr \<noteq> Some (In_sleep i)"
  shows "step_loop stop_seen intr words delay (is @ rest) s =
    step_loop stop_seen intr words delay rest (after_iterations words delay is s)"
  using assms
proof (induction "is" arbitrary: s)
  case Nil
  then show ?case by (simp add: after_iterations_Nil)
next
  case (Cons i "is")
  have "step_loop stop_seen intr words delay ((i # is) @ rest) s =
      step_loop stop_seen intr words delay (is @ rest) (after_iterations words delay [i] s)"
    using Cons.prems by (simp add: step_loop_iteration del: step_loop.simps)
  also have "\<dots> = step_loop stop_seen intr words delay rest
      (after_iterations words delay is (after_iterations words delay [i] s))"
    using Cons.prems by (intro Cons.IH) (simp_all add: after_iterations_writable)
  finally show ?case
    by (simp add: after_iterations_Cons [symmetric])
qed

lemma step_loop_finishes:
  assumes "running (thread_obj s)"
    and "0 \<le> fst delay"
    and "writable_table (store s)"
    and "\<forall>i \<in> set is. \<not> stop_seen i \<and> 0 \<le> i \<and> i < int (length words)"
  shows "step_loop stop_seen None words delay is s = (Finished, after_iterations words delay is s)"
  using step_loop_plays [where rest = "[]" and intr = None, OF assms(1-3)] assms(4)
  by simp

lemma step_loop_stops:
  assumes "running (thread_obj s)"
    and "0 \<le> fst delay"
    and "writable_table (store s)"
    and "\<forall>i \<in> set is. \<not> stop_seen i \<and> 0 \<le> i \<and> i < int (length words)"
    and "stop_seen j"
  shows "step_loop stop_seen None words delay (is @ j # rest) s =
    (Stopped, (after_iterations words delay is s)
       \<lparr>thread_obj := (thread_obj (after_iterations words delay is s))\<lparr>running := False\<rparr>\<rparr>)"
  using step_loop_plays [where rest = "j # rest" and intr = None, OF assms(1-3)] assms(4,5)
  by simp


lemma signalled_words_append:
  "signalled_words (xs @ ys) = signalled_words xs @ signalled_words ys"
  by (induction xs rule: signalled_words.induct) simp_all

lemma signalled_progress_append:
  "signalled_progress (xs @ ys) = signalled_progress xs @ signalled_progress ys"
  by (induction xs rule: signalled_progress.induct) simp_all

lemma saved_indices_append:
  "saved_indices (xs @ ys) = saved_indices xs @ saved_indices ys"
  by (induction xs rule: saved_indices.induct) simp_all

lemma signalled_words_iterations:
  "signalled_words (concat (map (iteration_events words delay) is)) = map (\<lambda>i. words ! nat i) is"
  by (induction "is") (simp_all add: signalled_words_append iteration_events_def)

lemma signalled_progress_iterations:
  "signalled_progress (concat (map (iteration_events words delay) is)) =
     map (\<lambda>i. percent_of i (int (length words))) is"
  by (induction "is") (simp_all add: signalled_progress_append iteration_events_def)

lemma saved_indices_iterations:
  "saved_indices (concat (map (iteration_events words delay) is)) = map (\<lambda>i. i + 1) is"
  by (induction "is") (simp_all add: saved_indices_append iteration_events_def)

lemma range_nth_is_drop:
  assumes "0 \<le> k" and "k \<le> int (length xs)"
  shows "map (\<lambda>i. xs ! nat i) [k..int (length xs) - 1] = drop (nat k) xs"
proof (rule nth_equalityI)
  show "length (map (\<lambda>i. xs ! nat i) [k..int (length xs) - 1]) = length (drop (nat k) xs)"
    using assms by simp
next
  fix j
  assume "j < length (map (\<lambda>i. xs ! nat i) [k..int (length xs) - 1])"
  then have j: "k + int j \<le> int (length xs) - 1" by simp
  then have "[k..int (length xs) - 1] ! j = k + int j" by (rule nth_upto)
  moreover have "nat (k + int j) = nat k + j" using assms(1) by (simp add: nat_add_distrib)
  ultimately show "map (\<lambda>i. xs ! nat i) [k..int (length xs) - 1] ! j = drop (nat k) xs ! j"
    using j assms by simp
qed

lemma range_nth_is_take:
  assumes "0 \<le> n" and "n \<le> int (length xs)"
  shows "map (\<lambda>i. xs ! nat i) [0..n - 1] = take (nat n) xs"
proof (rule nth_equalityI)
  show "length (map (\<lambda>i. xs ! nat i) [0..n - 1]) = length (take (nat n) xs)"
    using assms by simp
next
  fix j
  assume "j < length (map (\<lambda>i. xs ! nat i) [0..n - 1])"
  then have j: "0 + int j \<le> n - 1" by simp
  then have "[0..n - 1] ! j = 0 + int j" by (rule nth_upto)
  then show "map (\<lambda>i. xs ! nat i) [0..n - 1] ! j = take (nat n) xs ! j"
    using j assms by simp
qed

lemma fold_after_save_load:
  "is \<noteq> [] \<Longrightarrow>
   load_progress (Some d) (fold (\<lambda>i. after_save (Some d) (i + 1)) is f) = Inr (JInt (last is + 1))"
proof (induction "is" arbitrary: f)
  case Nil
  then show ?case by simp
next
  case (Cons i "is")
  then show ?case by (cases "is = []") (simp_all add: load_after_save)
qed

lemma upto_split_at:
  assumes "lo \<le> n" and "n \<le> hi + 1"
  shows "[lo..hi] = [lo..n - 1] @ [n..hi]"
proof (cases "n \<le> hi")
  case True
  with assms(1) show ?thesis by (rule upto_split1)
next
  case False
  with assms(2) have "n = hi + 1" by simp
  then show ?thesis by simp
qed

lemma round_half_even_nonneg: "0 \<le> n \<Longrightarrow> 0 \<le> d \<Longrightarrow> 0 \<le> round_half_even n d"
  by (cases "d = 0") (simp_all add: round_half_even_def Let_def pos_imp_zdiv_nonneg_iff)

lemma scaled_nonneg: "0 \<le> n \<Longrightarrow> 0 \<le> scaled n x"
  by (simp add: scaled_def)

lemma nearest_double_nonneg: "0 \<le> n \<Longrightarrow> 0 \<le> d \<Longrightarrow> 0 \<le> fst (nearest_double n d)"
  by (simp add: nearest_double_def Let_def round_half_even_nonneg scaled_nonneg)

lemma pacing_delay_positive_rate:
  assumes "0 < w"
  shows "\<exists>delay. pacing_delay (JInt w) = Inr delay \<and> 0 \<le> fst delay"
proof -
  have "0 \<le> fst (nearest_double 60 w)"
    using assms by (intro nearest_double_nonneg) simp_all
  then show ?thesis
    using assms by (simp add: pacing_delay_def py_truediv_def split: prod.splits)
qed

section \<open>Facts about a run\<close>

lemma run_from_index:
  assumes "load_progress (file_path t) f = Inr (JInt k)"
    and "pacing_delay (thread_words_per_minute t) = Inr delay"
  shows "run stop_seen intr t f =
    step_loop stop_seen intr (split (thread_text t)) delay
      [k..int (length (split (thread_text t))) - 1] (fresh_session t f)"
  using assms by (simp add: run_def fresh_session_def Let_def)

lemma run_plays_through:
  assumes "writable_table f"
    and "load_progress (Some d) f = Inr (JInt k)"
    and "0 \<le> k"
    and "pacing_delay (JInt w) = Inr delay" and "0 \<le> fst delay"
    and "\<forall>i. k \<le> i \<and> i < int (length (split txt)) \<longrightarrow> \<not> stop_seen i"
  shows "run stop_seen None (new_thread (Some d) txt (JInt w)) f =
    (Finished, after_iterations (split txt) delay [k..int (length (split txt)) - 1]
       (fresh_session (new_thread (Some d) txt (JInt w)) f))"
proof -
  let ?t = "new_thread (Some d) txt (JInt w)"
  have "run stop_seen None ?t f =
      step_loop stop_seen None (split txt) delay [k..int (length (split txt)) - 1] (fresh_session ?t f)"
    using assms(2,4) by (simp add: run_from_index new_thread_def)
  also have "\<dots> = (Finished, after_iterations (split txt) delay [k..int (length (split txt)) - 1]
       (fresh_session ?t f))"
    using assms(1,3,5,6)
    by (intro step_loop_finishes) (simp_all add: fresh_session_def new_thread_def)
  finally show ?thesis .
qed

lemma after_iterations_words:
  "signalled_words (events (after_iterations words delay is s)) =
     signalled_words (events s) @ map (\<lambda>i. words ! nat i) is"
  by (simp add: after_iterations_def signalled_words_append signalled_words_iterations)

lemma after_iterations_progress:
  "signalled_progress (events (after_iterations words delay is s)) =
     signalled_progress (events s) @ map (\<lambda>i. percent_of i (int (length words))) is"
  by (simp add: after_iterations_def signalled_progress_append signalled_progress_iterations)

lemma after_iterations_saved:
  "saved_indices (events (after_iterations words delay is s)) =
     saved_indices (events s) @ map (\<lambda>i. i + 1) is"
  by (simp add: after_iterations_def saved_indices_append saved_indices_iterations)

lemma range_words_drop:
  assumes "0 \<le> k"
  shows "map (\<lambda>i. xs ! nat i) [k..int (length xs) - 1] = drop (nat k) xs"
proof (cases "k \<le> int (length xs)")
  case True
  with assms show ?thesis by (rule range_nth_is_drop)
next
  case False
  then show ?thesis by simp
qed

lemma run_signals_rest:
  assumes "writable_table f"
    and "load_progress (Some d) f = Inr (JInt k)"
    and "0 \<le> k"
    and "0 < w"
  shows "\<exists>delay. run no_stop None (new_thread (Some d) txt (JInt w)) f =
    (Finished, after_iterations (split txt) delay [k..int (length (split txt)) - 1]
       (fresh_session (new_thread (Some d) txt (JInt w)) f))"
proof -
  from assms(4) obtain delay where "pacing_delay (JInt w) = Inr delay" and "0 \<le> fst delay"
    using pacing_delay_positive_rate by blast
  with assms(1-3) have "run no_stop None (new_thread (Some d) txt (JInt w)) f =
    (Finished, after_iterations (split txt) delay [k..int (length (split txt)) - 1]
       (fresh_session (new_thread (Some d) txt (JInt w)) f))"
    by (intro run_plays_through) (simp_all add: no_stop_def)
  then show ?thesis ..
qed

lemma step_loop_until_stop:
  assumes "running (thread_obj s)"
    and "0 \<le> fst delay"
    and "writable_table (store s)"
    and "\<forall>i \<in> set is. \<not> stop_seen i \<and> 0 \<le> i \<and> i < int (length words)"
    and "rest = [] \<or> stop_seen (hd rest)"
  shows "events (snd (step_loop stop_seen None words delay (is @ rest) s)) =
      events (after_iterations words delay is s)
    \<and> store (snd (step_loop stop_seen None words delay (is @ rest) s)) =
      store (after_iterations words delay is s)"
proof (cases rest)
  case Nil
  then show ?thesis
    using step_loop_finishes [OF assms(1-4)] by simp
next
  case (Cons j rest')
  with assms(5) have "stop_seen j" by simp
  from step_loop_stops [OF assms(1-4) this] Cons show ?thesis by simp
qed

lemma run_until_stop:
  assumes "writable_table f"
    and "load_progress (Some d) f = Inr (JInt 0)"
    and "0 \<le> n" and "n \<le> int (length (split txt))"
    and "pacing_delay (JInt w) = Inr delay" and "0 \<le> fst delay"
  shows "events (snd (run (stop_from n) None (new_thread (Some d) txt (JInt w)) f)) =
      events (after_iterations (split txt) delay [0..n - 1]
        (fresh_session (new_thread (Some d) txt (JInt w)) f))
    \<and> store (snd (run (stop_from n) None (new_thread (Some d) txt (JInt w)) f)) =
      store (after_iterations (split txt) delay [0..n - 1]
        (fresh_session (new_thread (Some d) txt (JInt w)) f))"
proof -
  let ?t = "new_thread (Some d) txt (JInt w)"
  let ?N = "int (length (split txt))"
  have r: "run (stop_from n) None ?t f =
      step_loop (stop_from n) None (split txt) delay [0..?N - 1] (fresh_session ?t f)"
    using assms(2,5) by (simp add: run_from_index new_thread_def)
  have s: "[0..?N - 1] = [0..n - 1] @ [n..?N - 1]"
    using assms(3,4) by (intro upto_split_at) simp_all
  have h: "[n..?N - 1] = [] \<or> n \<le> hd [n..?N - 1]"
    by (cases "n \<le> ?N - 1") (simp_all add: upto_rec1)
  show ?thesis
    unfolding r s
    using assms(1,4,6) h
    by (intro step_loop_until_stop) (auto simp: fresh_session_def new_thread_def stop_from_def)
qed

lemma stored_after_iterations:
  assumes "file_path (thread_obj s) = Some d" and "0 \<le> n"
    and "load_progress (Some d) (store s) = Inr (JInt 0)"
  shows "load_progress (Some d) (store (after_iterations words delay [0..n - 1] s)) = Inr (JInt n)"
proof (cases "n = 0")
  case True
  then show ?thesis using assms(3) by (simp add: after_iterations_def)
next
  case False
  with assms(2) have ne: "[0..n - 1] \<noteq> []" by simp
  from False assms(2) have "[0..n - 1] = [0..n - 1 - 1] @ [n - 1]"
    by (intro upto_rec2) simp
  then have la: "last [0..n - 1] = n - 1"
    by (metis last_snoc)
  show ?thesis
    using assms(1) fold_after_save_load [OF ne, of d] la
    by (simp add: after_iterations_def)
qed

section \<open>Resuming\<close>

text \<open>
  C1 (resume correctness). The progress file is a table that can be written and holds
  \<open>k \<ge> 0\<close> for the document \<open>d\<close>; the rate is a positive integer; \<^verbatim>\<open>stop\<close> is never
  called and no interrupt arrives. Then the run goes to the end of the loop, and the words
  it signals are the tokens from index \<open>k\<close> on, in order and nothing else: \<open>drop k\<close> of the
  tokens, which is empty as soon as \<open>k\<close> reaches their number.
\<close>

theorem resume_correctness:
  assumes "writable_table f"
    and "load_progress (Some d) f = Inr (JInt k)"
    and "0 \<le> k"
    and "0 < w"
  shows "fst (run no_stop None (new_thread (Some d) txt (JInt w)) f) = Finished \<and>
    signalled_words (events (snd (run no_stop None (new_thread (Some d) txt (JInt w)) f)))
      = drop (nat k) (split txt)"
proof -
  from run_signals_rest [OF assms, of "txt"]
  obtain delay where "run no_stop None (new_thread (Some d) txt (JInt w)) f =
    (Finished, after_iterations (split txt) delay [k..int (length (split txt)) - 1]
       (fresh_session (new_thread (Some d) txt (JInt w)) f))" ..
  then show ?thesis
    using assms(3) by (simp add: after_iterations_words range_words_drop fresh_session_def)
qed

theorem resume_correctness_witness:
  "writable_table (Document (JObj [(''book.epub'', JInt 2)])) \<and>
   load_progress (Some ''book.epub'') (Document (JObj [(''book.epub'', JInt 2)])) = Inr (JInt 2) \<and>
   signalled_words (events (snd (run no_stop None
       (new_thread (Some ''book.epub'') ''alpha beta gamma delta'' (JInt 600))
       (Document (JObj [(''book.epub'', JInt 2)])))))
     = [''gamma'', ''delta'']"
proof -
  have w: "writable_table (Document (JObj [(''book.epub'', JInt 2)]))"
    by (simp add: writable_table_def)
  have l: "load_progress (Some ''book.epub'') (Document (JObj [(''book.epub'', JInt 2)]))
      = Inr (JInt 2)"
    by (simp add: load_progress_def)
  have t: "split ''alpha beta gamma delta'' = [''alpha'', ''beta'', ''gamma'', ''delta'']"
    by code_simp
  show ?thesis
    using w l resume_correctness [OF w l, of 600 "''alpha beta gamma delta''"]
    by (simp add: t)
qed

section \<open>Stopping and resuming\<close>

text \<open>
  C7 (stop-then-resume idempotence). A session starts from the stored index 0 and \<^verbatim>\<open>stop\<close>
  is called once \<open>n\<close> iterations are complete, so that the flag is seen cleared at the top of
  the iteration for index \<open>n\<close> (for \<open>n\<close> the number of tokens the loop has ended by then). It
  has signalled the first \<open>n\<close> tokens, and the file \<open>f'\<close> it leaves holds \<open>n\<close> for the
  document. A fresh session on \<open>f'\<close> that is not stopped runs to the end and signals the
  tokens from index \<open>n\<close> on: none twice, none skipped.
\<close>

theorem stop_then_resume:
  assumes "writable_table f"
    and "load_progress (Some d) f = Inr (JInt 0)"
    and "0 \<le> n" and "n \<le> int (length (split txt))"
    and "0 < w" and "0 < w'"
    and "f' = store (snd (run (stop_from n) None (new_thread (Some d) txt (JInt w)) f))"
  shows "signalled_words (events (snd (run (stop_from n) None (new_thread (Some d) txt (JInt w)) f)))
      = take (nat n) (split txt)
    \<and> load_progress (Some d) f' = Inr (JInt n)
    \<and> fst (run no_stop None (new_thread (Some d) txt (JInt w')) f') = Finished
    \<and> signalled_words (events (snd (run no_stop None (new_thread (Some d) txt (JInt w')) f')))
      = drop (nat n) (split txt)"
proof -
  let ?t = "new_thread (Some d) txt (JInt w)"
  from assms(5) obtain delay where d: "pacing_delay (JInt w) = Inr delay" "0 \<le> fst delay"
    using pacing_delay_positive_rate by blast
  note first = run_until_stop [OF assms(1-4) d]
  have words: "signalled_words (events (snd (run (stop_from n) None ?t f))) = take (nat n) (split txt)"
    using first assms(3,4)
    by (simp add: after_iterations_words fresh_session_def range_nth_is_take)
  have f': "f' = store (after_iterations (split txt) delay [0..n - 1] (fresh_session ?t f))"
    using first assms(7) by simp
  have wr: "writable_table f'"
    unfolding f' using assms(1) by (intro after_iterations_writable) (simp add: fresh_session_def)
  have ld: "load_progress (Some d) f' = Inr (JInt n)"
    unfolding f' using assms(2,3)
    by (intro stored_after_iterations) (simp_all add: fresh_session_def new_thread_def)
  have "\<exists>delay'. run no_stop None (new_thread (Some d) txt (JInt w')) f' =
    (Finished, after_iterations (split txt) delay' [n..int (length (split txt)) - 1]
       (fresh_session (new_thread (Some d) txt (JInt w')) f'))"
    using wr ld assms(3,6) by (rule run_signals_rest)
  then obtain delay' where "run no_stop None (new_thread (Some d) txt (JInt w')) f' =
    (Finished, after_iterations (split txt) delay' [n..int (length (split txt)) - 1]
       (fresh_session (new_thread (Some d) txt (JInt w')) f'))" ..
  then have "fst (run no_stop None (new_thread (Some d) txt (JInt w')) f') = Finished"
    and "signalled_words (events (snd (run no_stop None (new_thread (Some d) txt (JInt w')) f')))
      = drop (nat n) (split txt)"
    using assms(3) by (simp_all add: after_iterations_words range_words_drop fresh_session_def)
  with words ld show ?thesis by simp
qed

theorem stop_then_resume_witness:
  "signalled_words (events (snd (run (stop_from 2) None
       (new_thread (Some ''book.epub'') ''alpha beta gamma delta'' (JInt 600))
       (Document (JObj [(''book.epub'', JInt 0)])))))
     = [''alpha'', ''beta''] \<and>
   load_progress (Some ''book.epub'')
     (store (snd (run (stop_from 2) None
       (new_thread (Some ''book.epub'') ''alpha beta gamma delta'' (JInt 600))
       (Document (JObj [(''book.epub'', JInt 0)]))))) = Inr (JInt 2) \<and>
   signalled_words (events (snd (run no_stop None
       (new_thread (Some ''book.epub'') ''alpha beta gamma delta'' (JInt 600))
       (store (snd (run (stop_from 2) None
         (new_thread (Some ''book.epub'') ''alpha beta gamma delta'' (JInt 600))
         (Document (JObj [(''book.epub'', JInt 0)]))))))))
     = [''gamma'', ''delta'']"
proof -
  have w: "writable_table (Document (JObj [(''book.epub'', JInt 0)]))"
    by (simp add: writable_table_def)
  have l: "load_progress (Some ''book.epub'') (Document (JObj [(''book.epub'', JInt 0)]))
      = Inr (JInt 0)"
    by (simp add: load_progress_def)
  have t: "split ''alpha beta gamma delta'' = [''alpha'', ''beta'', ''gamma'', ''delta'']"
    by code_simp
  show ?thesis
    using stop_then_resume [OF w l, of 2 "''alpha beta gamma delta''" 600 600, OF _ _ _ _ refl]
    by (simp add: t)
qed

section \<open>The percentage of a step\<close>

text \<open>
  C2 as stated (the progress notification of step \<open>i\<close> carries the percentage rounded to
  the nearest integer) fails: over three tokens the second step signals 66, and the
  rounded percentage of 2 out of 3 is 67.
\<close>

theorem progress_is_rounded_counterexample:
  "signalled_progress (events (snd (run no_stop None
      (new_thread (Some ''book.epub'') ''a b c'' (JInt 600)) Missing))) = [33, 66, 100]
   \<and> rounded_percent 1 3 = 67"
  by code_simp

text \<open>
  C2 as amended. In a run that is neither stopped nor interrupted, from the stored index
  \<open>k\<close>, the progress notification of every step \<open>i\<close> with \<open>k \<le> i < N\<close> carries
  \<^verbatim>\<open>int((i + 1) / N * 100)\<close>: the double-precision product with its fraction cut off, not
  rounded to the nearest integer.
\<close>

theorem progress_is_truncated:
  assumes "writable_table f"
    and "load_progress (Some d) f = Inr (JInt k)"
    and "0 \<le> k" and "0 < w"
    and "k \<le> i" and "i < int (length (split txt))"
  shows "progress_percent i (int (length (split txt))) =
    Inr (signalled_progress (events (snd (run no_stop None
      (new_thread (Some d) txt (JInt w)) f))) ! nat (i - k))"
proof -
  let ?N = "int (length (split txt))"
  from run_signals_rest [OF assms(1-4), of "txt"]
  obtain delay where "run no_stop None (new_thread (Some d) txt (JInt w)) f =
    (Finished, after_iterations (split txt) delay [k..?N - 1]
       (fresh_session (new_thread (Some d) txt (JInt w)) f))" ..
  then have p: "signalled_progress (events (snd (run no_stop None
      (new_thread (Some d) txt (JInt w)) f))) = map (\<lambda>i. percent_of i ?N) [k..?N - 1]"
    by (simp add: after_iterations_progress fresh_session_def)
  have j: "k + int (nat (i - k)) \<le> ?N - 1" using assms(5,6) by simp
  then have "[k..?N - 1] ! nat (i - k) = k + int (nat (i - k))" by (rule nth_upto)
  moreover have "nat (i - k) < length [k..?N - 1]" using assms(5,6) by simp
  ultimately have "map (\<lambda>i. percent_of i ?N) [k..?N - 1] ! nat (i - k) = percent_of i ?N"
    using assms(5) by simp
  moreover have "?N \<noteq> 0" using assms(3,5,6) by linarith
  ultimately show ?thesis
    by (simp add: p progress_percent_Inr)
qed

theorem progress_is_truncated_witness:
  "progress_percent 1 3 =
    Inr (signalled_progress (events (snd (run no_stop None
      (new_thread (Some ''book.epub'') ''a b c'' (JInt 600)) Missing))) ! nat (1 - 0))
   \<and> progress_percent 1 3 = Inr 66"
proof -
  have w: "writable_table Missing"
    by (simp add: writable_table_def)
  have l: "load_progress (Some ''book.epub'') Missing = Inr (JInt 0)"
    by (simp add: load_progress_def)
  have t: "split ''a b c'' = [''a'', ''b'', ''c'']"
    by code_simp
  have p: "progress_percent 1 3 = Inr 66"
    by code_simp
  show ?thesis
    using progress_is_truncated [OF w l, of 600 1 "''a b c''"] p
    by (simp add: t)
qed

text \<open>
  The fraction is cut off the double, not off the exact percentage: 57 out of 100 is a
  double just below 0.57, its product with 100 is the double just below 57, and the step
  signals 56.
\<close>

lemma progress_of_57_in_100: "progress_percent 56 100 = Inr 56"
  by code_simp

section \<open>Checkpoints\<close>

text \<open>
  In a run that is neither stopped nor interrupted the indices written are
  \<open>k + 1, \<dots>, N\<close>, each one more than the one before.
\<close>

lemma checkpoints_ascend:
  assumes "writable_table f"
    and "load_progress (Some d) f = Inr (JInt k)"
    and "0 \<le> k" and "0 < w"
  shows "saved_indices (events (snd (run no_stop None (new_thread (Some d) txt (JInt w)) f)))
    = map (\<lambda>i. i + 1) [k..int (length (split txt)) - 1]"
proof -
  from run_signals_rest [OF assms, of "txt"]
  obtain delay where "run no_stop None (new_thread (Some d) txt (JInt w)) f =
    (Finished, after_iterations (split txt) delay [k..int (length (split txt)) - 1]
       (fresh_session (new_thread (Some d) txt (JInt w)) f))" ..
  then show ?thesis
    by (simp add: after_iterations_saved fresh_session_def)
qed







text \<open>
  The handler of \<^verbatim>\<open>KeyboardInterrupt\<close> is outside these runs. Were it reached at the top
  of the iteration for index 1, it would find the cursor at 0 and write 0 over the 1 the
  file holds by then.
\<close>

lemma handler_writes_cursor:
  "saved_indices (events (snd (run no_stop (Some (At_top 1))
      (new_thread (Some ''book.epub'') ''a b'' (JInt 600))
      (Document (JObj [(''book.epub'', JInt 0)]))))) = [1, 0]"
  by code_simp

section \<open>Reading the progress store\<close>

text \<open>
  What \<^verbatim>\<open>load_progress\<close> returns where the loading code has a branch for the file: 0 for
  a file that is missing, cannot be opened or is not a JSON text, and for a table the stored
  value, or 0 when the document has no entry.
\<close>

lemma load_progress_defaults:
  "load_progress (Some d) Missing = Inr (JInt 0)"
  "load_progress (Some d) Unreadable = Inr (JInt 0)"
  "load_progress (Some d) Garbled = Inr (JInt 0)"
  "load_progress (Some d) (Document (JObj kvs)) =
     Inr (case map_of kvs d of None \<Rightarrow> JInt 0 | Some v \<Rightarrow> v)"
  by (simp_all add: load_progress_def)

text \<open>
  C3 (get returns 0 for a malformed file and never raises). Two kinds of malformed file
  get past the \<^verbatim>\<open>except\<close> clause. A JSON text that is not an object, such as \<^verbatim>\<open>[]\<close>, is
  returned by \<^verbatim>\<open>load_all_progress\<close> as a list, and \<^verbatim>\<open>data.get\<close> raises \<^verbatim>\<open>AttributeError\<close>;
  a file that is not UTF-8 raises \<^verbatim>\<open>UnicodeDecodeError\<close> while it is read. Both reach
  the caller.
\<close>

theorem load_progress_raises:
  "load_progress (Some ''book.epub'') (Document (JArr [])) = Inl AttributeError
   \<and> load_progress (Some ''book.epub'') Undecodable = Inl UnicodeDecodeError"
  by (simp add: load_progress_def)

section \<open>Writing the progress store\<close>

text \<open>
  C5 (frame property of set). On a table that can be written, \<^verbatim>\<open>save_progress\<close> for the
  document \<open>d\<close> succeeds; afterwards \<^verbatim>\<open>load_progress\<close> returns the new index for \<open>d\<close> and,
  for every other document \<open>d'\<close>, what it returned before.
\<close>

theorem set_frame:
  assumes "writable_table f" and "d' \<noteq> d"
  shows "\<exists>f'. save_progress (Some d) index f = Inr f'
    \<and> load_progress (Some d') f' = load_progress (Some d') f
    \<and> load_progress (Some d) f' = Inr (JInt index)"
  using assms
  by (simp add: save_progress_writable load_after_save load_after_save_other)

theorem set_frame_witness:
  "\<exists>f'. save_progress (Some ''a.epub'') 7
       (Document (JObj [(''a.epub'', JInt 3), (''b.epub'', JInt 5)])) = Inr f'
    \<and> load_progress (Some ''b.epub'') f' = Inr (JInt 5)
    \<and> load_progress (Some ''a.epub'') f' = Inr (JInt 7)"
proof -
  have w: "writable_table (Document (JObj [(''a.epub'', JInt 3), (''b.epub'', JInt 5)]))"
    by (simp add: writable_table_def)
  have n: "''b.epub'' \<noteq> ''a.epub''" by simp
  show ?thesis
    using set_frame [OF w n, of 7] by (simp add: load_progress_def)
qed








lemma decodable_ascii: "\<forall>b \<in> set bs. b < 128 \<Longrightarrow> decodable bs"
  by (induction bs rule: decodable.induct) simp_all

lemma utf8_ascii:
  assumes "\<forall>c \<in> set s. of_char c < (128::nat)"
  shows "\<forall>b \<in> set (utf8 s). b < 128"
  using assms by (induction s) (simp_all add: utf8_def Let_def)

lemma ascii_write_stages:
  assumes "\<forall>c \<in> set (dumps_at 0 data). of_char c < (128::nat)"
    and "j < length (written_bytes data)"
  shows "file_after data j = Garbled"
proof -
  have "\<forall>b \<in> set (written_bytes data). b < 128"
    unfolding written_bytes_def using assms(1) by (rule utf8_ascii)
  then have "\<forall>b \<in> set (take j (written_bytes data)). b < 128"
    using set_take_subset [of j "written_bytes data"] by blast
  then have "decodable (take j (written_bytes data))"
    by (rule decodable_ascii)
  with assms(2) show ?thesis
    by (simp add: file_after_def)
qed




section \<open>Settings\<close>

text \<open>
  Where the loading code has a branch for the settings file, each setting is the stored
  value, or its default (300 words per minute, font size 16) when the key or the whole
  table is absent.
\<close>

lemma settings_defaults:
  assumes "sf = Missing \<or> sf = Unreadable \<or> sf = Garbled"
  shows "load_settings_from_file w sf = Inr (w\<lparr>words_per_minute := JInt 300, font_size := JInt 16\<rparr>)"
  using assms by (auto simp: load_settings_from_file_def)

lemma settings_stored:
  "load_settings_from_file w (Document (JObj kvs)) =
     Inr (w\<lparr>words_per_minute := (case map_of kvs ''words_per_minute'' of None \<Rightarrow> JInt 300 | Some v \<Rightarrow> v),
            font_size := (case map_of kvs ''font_size'' of None \<Rightarrow> JInt 16 | Some v \<Rightarrow> v)\<rparr>)"
  by (simp add: load_settings_from_file_def)

text \<open>
  C10 (defaults for a missing or malformed settings file). As for the progress file, a
  settings file holding a JSON text that is not an object, or bytes that are not UTF-8,
  makes \<^verbatim>\<open>load_settings_from_file\<close> raise instead of falling back to 300 and 16.
\<close>

theorem settings_load_raises:
  "load_settings_from_file w (Document (JArr [])) = Inl AttributeError
   \<and> load_settings_from_file w Undecodable = Inl UnicodeDecodeError"
  by (simp add: load_settings_from_file_def)

section \<open>The context window\<close>

lemma window_parts:
  assumes "0 \<le> c" and "c < int (length (split txt))"
    and "lo = nat (max 0 (c - 60))"
    and "hi = nat (min (int (length (split txt))) (c + 61))"
  shows "context_list txt c =
      (take (hi - lo) (drop lo (split txt)))[nat c - lo := highlight_current (split txt ! nat c)]"
    and "lo \<le> nat c \<and> nat c < hi \<and> hi \<le> length (split txt)"
    and "length (context_list txt c) = hi - lo \<and> length (context_list txt c) \<le> 121"
    and "c = 0 \<longrightarrow> lo = 0"
    and "c = int (length (split txt)) - 1 \<longrightarrow> hi = length (split txt)"
proof -
  let ?T = "split txt"
  let ?start = "max 0 (c - 60)"
  let ?end = "min (int (length ?T)) (c + 61)"
  let ?g = "\<lambda>i. if i = c then highlight_current (?T ! nat i) else ?T ! nat i"
  have cl: "context_list txt c = map ?g [?start..?end - 1]"
    by (simp add: context_list_def Let_def)
  have len: "length (context_list txt c) = hi - lo"
    unfolding cl using assms by (simp add: nat_diff_distrib)
  show b: "lo \<le> nat c \<and> nat c < hi \<and> hi \<le> length ?T"
    using assms by auto
  show "length (context_list txt c) = hi - lo \<and> length (context_list txt c) \<le> 121"
    using len assms by (auto simp: min_def max_def)
  show "c = 0 \<longrightarrow> lo = 0" using assms(3) by simp
  show "c = int (length ?T) - 1 \<longrightarrow> hi = length ?T" using assms(4) by auto
  show "context_list txt c =
      (take (hi - lo) (drop lo ?T))[nat c - lo := highlight_current (?T ! nat c)]"
  proof (rule nth_equalityI)
    show "length (context_list txt c) =
        length ((take (hi - lo) (drop lo ?T))[nat c - lo := highlight_current (?T ! nat c)])"
      using len b by (auto simp: min_def)
  next
    fix j
    assume "j < length (context_list txt c)"
    then have j: "j < hi - lo" using len by simp
    have lo_i: "int lo = ?start" using assms(3) by simp
    have hi_i: "int hi = ?end" using assms(1,2,4) by simp
    from j b have "int j < int hi - int lo" by linarith
    then have "?start + int j \<le> ?end - 1" using lo_i hi_i by linarith
    then have u: "[?start..?end - 1] ! j = ?start + int j" by (rule nth_upto)
    have n: "nat (?start + int j) = lo + j" using lo_i by linarith
    have c_i: "int (nat c) = c" using assms(1) by simp
    have "(?start + int j = c) = (lo + j = nat c)" using lo_i c_i by linarith
    also have "\<dots> = (j = nat c - lo)" using b by auto
    finally have e: "(?start + int j = c) = (j = nat c - lo)" .
    have "context_list txt c ! j = ?g (?start + int j)"
      unfolding cl using j u assms by (simp add: nat_diff_distrib)
    also have "\<dots> = (if j = nat c - lo then highlight_current (?T ! nat c) else ?T ! (lo + j))"
      using e n by auto
    also have "\<dots> =
        (take (hi - lo) (drop lo ?T))[nat c - lo := highlight_current (?T ! nat c)] ! j"
    proof -
      have tl: "length (take (hi - lo) (drop lo ?T)) = hi - lo" using b by auto
      have "take (hi - lo) (drop lo ?T) ! j = ?T ! (lo + j)" using j b by simp
      then show ?thesis using j tl by (simp add: nth_list_update del: length_take)
    qed
    finally show "context_list txt c ! j =
        (take (hi - lo) (drop lo ?T))[nat c - lo := highlight_current (?T ! nat c)] ! j" .
  qed
qed

lemma context_length_bound: "length (context_list txt c) \<le> 121"
  by (simp add: context_list_def Let_def)

text \<open>
  A token has no whitespace in it and the highlighted form of a word has a blank, so no
  token is the highlighted form of anything.
\<close>

lemma split_from_no_space:
  assumes "\<forall>c \<in> set cur. \<not> isspace c" and "w \<in> set (split_from s cur)"
  shows "\<forall>c \<in> set w. \<not> isspace c"
  using assms
proof (induction s arbitrary: cur)
  case Nil
  then show ?case by (auto split: if_splits)
next
  case (Cons a s)
  show ?case
  proof (cases "isspace a")
    case True
    show ?thesis
    proof (cases "cur = []")
      case True
      with \<open>isspace a\<close> Cons.prems(2) have "w \<in> set (split_from s [])" by simp
      then show ?thesis by (intro Cons.IH [of "[]"]) simp_all
    next
      case False
      with \<open>isspace a\<close> Cons.prems(2) have "w = rev cur \<or> w \<in> set (split_from s [])" by simp
      then show ?thesis
      proof
        assume "w = rev cur"
        with Cons.prems(1) show ?thesis by simp
      next
        assume "w \<in> set (split_from s [])"
        then show ?thesis by (intro Cons.IH [of "[]"]) simp_all
      qed
    qed
  next
    case False
    with Cons.prems(2) have "w \<in> set (split_from s (a # cur))" by simp
    moreover have "\<forall>c \<in> set (a # cur). \<not> isspace c" using False Cons.prems(1) by simp
    ultimately show ?thesis by (intro Cons.IH [of "a # cur"])
  qed
qed

lemma token_no_space: "w \<in> set (split s) \<Longrightarrow> \<forall>c \<in> set w. \<not> isspace c"
  unfolding split_def by (rule split_from_no_space [of "[]"]) simp_all

lemma highlight_has_blank: "CHR '' '' \<in> set (highlight_current x)"
  by (simp add: highlight_current_def)

lemma token_not_highlighted:
  assumes "w \<in> set (split s)"
  shows "w \<noteq> highlight_current x"
proof
  assume "w = highlight_current x"
  then have "CHR '' '' \<in> set w" by (simp add: highlight_has_blank)
  with token_no_space [OF assms] have "\<not> isspace (CHR '' '')" by blast
  then show False by (simp add: isspace_def)
qed

text \<open>
  C6 (context viewer). For a centre \<open>c\<close> with \<open>0 \<le> c < N\<close>, let \<open>lo = max(0, c - 60)\<close> and
  \<open>hi = min(N, c + 61)\<close>. The list that \<^verbatim>\<open>update_context\<close> builds is the tokens from \<open>lo\<close> up
  to \<open>hi\<close> (\<open>take (hi - lo)\<close> of \<open>drop lo\<close>) with the entry for index \<open>c\<close> replaced by the token
  inside the red, bold \<^verbatim>\<open>span\<close>, and what the function hands to the browser is these
  entries joined by blanks. The token at \<open>c\<close> is flagged and only it: every other entry is
  its token unchanged, and is not the highlighted form of any word. The centre lies inside
  the window, the window stays inside the tokens, it has at most 121 entries, it starts at
  0 for \<open>c = 0\<close> and ends at \<open>N\<close> for \<open>c = N - 1\<close>.
\<close>

theorem context_window:
  assumes "0 \<le> c" and "c < int (length (split txt))"
    and "lo = nat (max 0 (c - 60))"
    and "hi = nat (min (int (length (split txt))) (c + 61))"
  shows \<open>context_list txt c =
      (take (hi - lo) (drop lo (split txt)))
        [nat c - lo := ''<span style="color: red; font-weight: bold;">'' @ split txt ! nat c @ ''</span>'']
    \<and> update_context txt c = join '' '' (context_list txt c)
    \<and> (\<forall>j < hi - lo. j \<noteq> nat c - lo \<longrightarrow>
          context_list txt c ! j = split txt ! (lo + j)
          \<and> (\<forall>x. context_list txt c ! j \<noteq> highlight_current x))
    \<and> context_list txt c ! (nat c - lo) = highlight_current (split txt ! nat c)
    \<and> (lo \<le> nat c \<and> nat c < hi \<and> hi \<le> length (split txt))
    \<and> (length (context_list txt c) = hi - lo \<and> length (context_list txt c) \<le> 121)
    \<and> (c = 0 \<longrightarrow> lo = 0)
    \<and> (c = int (length (split txt)) - 1 \<longrightarrow> hi = length (split txt))\<close>
proof -
  let ?T = "split txt"
  note p = window_parts [OF assms]
  have tl: "length (take (hi - lo) (drop lo ?T)) = hi - lo" using p(2) by auto
  have a: \<open>context_list txt c =
      (take (hi - lo) (drop lo ?T))
        [nat c - lo := ''<span style="color: red; font-weight: bold;">'' @ ?T ! nat c @ ''</span>'']\<close>
    using p(1) by (simp add: highlight_current_def)
  have b: "context_list txt c ! j = ?T ! (lo + j) \<and> (\<forall>x. context_list txt c ! j \<noteq> highlight_current x)"
    if "j < hi - lo" and "j \<noteq> nat c - lo" for j
  proof -
    have "take (hi - lo) (drop lo ?T) ! j = ?T ! (lo + j)" using that(1) p(2) by simp
    then have e: "context_list txt c ! j = ?T ! (lo + j)"
      unfolding p(1) using that tl by (simp add: nth_list_update del: length_take)
    have "lo + j < length ?T" using that(1) p(2) by linarith
    then have "?T ! (lo + j) \<in> set ?T" by simp
    then have "\<forall>x. ?T ! (lo + j) \<noteq> highlight_current x"
      using token_not_highlighted by blast
    with e show ?thesis by simp
  qed
  have d: "context_list txt c ! (nat c - lo) = highlight_current (?T ! nat c)"
  proof -
    have "nat c - lo < length (take (hi - lo) (drop lo ?T))" using p(2) tl by linarith
    then show ?thesis unfolding p(1) by (rule nth_list_update_eq)
  qed
  have u: "update_context txt c = join '' '' (context_list txt c)"
    by (simp add: update_context_def)
  from a u b d p(2-5) show ?thesis by blast
qed

theorem context_window_witness:
  \<open>context_list ''a b c'' 1 = [''a'', ''<span style="color: red; font-weight: bold;">b</span>'', ''c'']
   \<and> update_context ''a b c'' 1 = ''a <span style="color: red; font-weight: bold;">b</span> c''
   \<and> context_list ''a b c'' 1 ! 0 \<noteq> highlight_current ''a''\<close>
proof -
  have t: "split ''a b c'' = [''a'', ''b'', ''c'']"
    by code_simp
  show ?thesis
    using context_window [of 1 "''a b c''" 0 3]
    by (simp add: t highlight_current_def)
qed

section \<open>Starting a session\<close>

lemma step_loop_no_words:
  "signalled_words (events (snd (step_loop stop_seen intr [] delay is s))) = signalled_words (events s)
   \<and> signalled_progress (events (snd (step_loop stop_seen intr [] delay is s))) = signalled_progress (events s)"
proof (cases "is")
  case Nil
  then show ?thesis
    by (simp add: on_keyboard_interrupt_def emit_def signalled_words_append
        signalled_progress_append Let_def split: sum.splits)
next
  case (Cons i rest)
  then show ?thesis
    by (auto simp: on_keyboard_interrupt_def emit_def py_getitem_def signalled_words_append
        signalled_progress_append Let_def split: sum.splits)
qed

lemma run_no_words:
  assumes "split (thread_text t) = []"
  shows "signalled_words (events (snd (run stop_seen intr t f))) = []
    \<and> signalled_progress (events (snd (run stop_seen intr t f))) = []"
  using assms step_loop_no_words [of stop_seen intr _ _ "\<lparr>thread_obj = t, events = [], store = f\<rparr>"]
  by (simp add: run_def Let_def split: sum.splits)

text \<open>
  C8 as stated (a start with a token sequence of length zero creates no thread) fails: the
  guard of \<^verbatim>\<open>start_display\<close> tests the text, and a text of one blank has no token and is
  not empty. The thread is created and started.
\<close>

theorem start_rejects_tokenless_counterexample:
  "split '' '' = []
   \<and> snd (start_display \<lparr> words_per_minute = JInt 300, font_size = JInt 16, window_text = '' '',
        thread = None, current_file_path = Some ''book.epub'', word_label = [],
        progress_bar = 0 \<rparr>)
     = Some (new_thread (Some ''book.epub'') '' '' (JInt 300))"
  by (simp add: start_display_def stop_display_def split_def isspace_def Let_def)

text \<open>
  C8 as amended. With an empty text (no document loaded) \<^verbatim>\<open>start_display\<close> is rejected
  before any session exists: no thread is created, nothing is signalled, the progress file
  is untouched, and the window only shows the message in its label. With a text that is
  not empty and has no token, a thread is created and started; it signals no word and no
  progress.
\<close>

theorem start_rejects_empty_text:
  "(window_text w = [] \<longrightarrow>
      snd (start_display w) = None
      \<and> start_and_play stop_seen intr w f =
          (w\<lparr>word_label := ''Please load an EPUB file first.''\<rparr>, f, []))
   \<and> (window_text w \<noteq> [] \<and> split (window_text w) = [] \<longrightarrow>
      snd (start_display w) \<noteq> None
      \<and> signalled_words (snd (snd (start_and_play stop_seen intr w f))) = []
      \<and> signalled_progress (snd (snd (start_and_play stop_seen intr w f))) = [])"
proof (intro conjI impI)
  assume "window_text w = []"
  then show "snd (start_display w) = None"
    and "start_and_play stop_seen intr w f =
          (w\<lparr>word_label := ''Please load an EPUB file first.''\<rparr>, f, [])"
    by (simp_all add: start_and_play_def start_display_def)
next
  assume a: "window_text w \<noteq> [] \<and> split (window_text w) = []"
  let ?t = "new_thread (current_file_path (stop_display w)) (window_text (stop_display w))
      (words_per_minute (stop_display w))"
  have sd: "start_display w = ((stop_display w)\<lparr>thread := Some ?t\<rparr>, Some ?t)"
    using a by (simp add: start_display_def Let_def)
  have "window_text (stop_display w) = window_text w"
    by (simp add: stop_display_def split: option.splits)
  then have tt: "split (thread_text ?t) = []"
    using a by (simp add: new_thread_def)
  show "snd (start_display w) \<noteq> None" by (simp add: sd)
  show "signalled_words (snd (snd (start_and_play stop_seen intr w f))) = []"
    using run_no_words [OF tt, of stop_seen intr f]
    by (simp add: start_and_play_def sd case_prod_beta)
  show "signalled_progress (snd (snd (start_and_play stop_seen intr w f))) = []"
    using run_no_words [OF tt, of stop_seen intr f]
    by (simp add: start_and_play_def sd case_prod_beta)
qed

theorem start_rejects_empty_text_witness:
  "snd (start_display \<lparr> words_per_minute = JInt 300, font_size = JInt 16, window_text = [],
        thread = None, current_file_path = None, word_label = [], progress_bar = 0 \<rparr>) = None
   \<and> snd (snd (start_and_play no_stop None
        \<lparr> words_per_minute = JInt 300, font_size = JInt 16, window_text = [],
          thread = None, current_file_path = None, word_label = [], progress_bar = 0 \<rparr>
        Missing)) = []
   \<and> snd (start_display \<lparr> words_per_minute = JInt 300, font_size = JInt 16, window_text = '' '',
        thread = None, current_file_path = Some ''book.epub'', word_label = [],
        progress_bar = 0 \<rparr>) \<noteq> None
   \<and> signalled_words (snd (snd (start_and_play no_stop None
        \<lparr> words_per_minute = JInt 300, font_size = JInt 16, window_text = '' '',
          thread = None, current_file_path = Some ''book.epub'', word_label = [],
          progress_bar = 0 \<rparr>
        Missing))) = []"
proof -
  have t: "split '' '' = []"
    by code_simp
  show ?thesis
    using
      start_rejects_empty_text [of
        "\<lparr> words_per_minute = JInt 300, font_size = JInt 16, window_text = [],
          thread = None, current_file_path = None, word_label = [], progress_bar = 0 \<rparr>"
        no_stop None Missing]
      start_rejects_empty_text [of
        "\<lparr> words_per_minute = JInt 300, font_size = JInt 16, window_text = '' '',
          thread = None, current_file_path = Some ''book.epub'', word_label = [],
          progress_bar = 0 \<rparr>"
        no_stop None Missing]
    by (simp add: t)
qed

end
